theory Spec2Isabelle
  imports Main
begin

section \<open>Text primitives of the host language\<close>

text \<open>
  A Python \<open>str\<close> is modelled as a \<open>string\<close>, one \<open>char\<close> per code point. The model
  covers the code points below 256; the predicates below follow Python on that range.
\<close>

abbreviation TAB :: char where "TAB \<equiv> CHR 0x09"
abbreviation NL :: char where "NL \<equiv> CHR 0x0A"
abbreviation CR :: char where "CR \<equiv> CHR 0x0D"
abbreviation QUOTE :: char where "QUOTE \<equiv> CHR 0x27"

text \<open>
  \<open>str.isspace\<close> on one character: the code points 9 to 13, 28 to 32, 0x85 and 0xA0.
  \<open>str.strip()\<close> and \<open>str.split()\<close> without arguments use the same set.
\<close>

definition isspace :: "char \<Rightarrow> bool" where
  "isspace c = (of_char c \<in> {9, 10, 11, 12, 13, 28, 29, 30, 31, 32, 133, 160 :: nat})"

text \<open>\<open>s.strip()\<close>: whitespace removed from both ends.\<close>

definition rstrip :: "string \<Rightarrow> string" where
  "rstrip s = rev (dropWhile isspace (rev s))"

definition strip :: "string \<Rightarrow> string" where
  "strip s = rstrip (dropWhile isspace s)"

text \<open>
  \<open>s.split()\<close>: the maximal runs of non-whitespace characters, in order. The first
  argument is the token being read.
\<close>

fun split_acc :: "string \<Rightarrow> string \<Rightarrow> string list" where
  "split_acc cur [] = (if cur = [] then [] else [cur])"
| "split_acc cur (c # cs) =
     (if isspace c then (if cur = [] then split_acc [] cs else cur # split_acc [] cs)
      else split_acc (cur @ [c]) cs)"

definition split_ws :: "string \<Rightarrow> string list" where
  "split_ws s = split_acc [] s"

text \<open>\<open>line.split("\t", 1)\<close>: cut at the first tab only; one part when there is no tab.\<close>

definition split_tab1 :: "string \<Rightarrow> string list" where
  "split_tab1 line =
     (if TAB \<in> set line
      then [takeWhile (\<lambda>c. c \<noteq> TAB) line, tl (dropWhile (\<lambda>c. c \<noteq> TAB) line)]
      else [line])"

text \<open>
  \<open>str.upper()\<close> on one character. ASCII and Latin-1 lower-case letters move down by 32;
  the sharp s becomes two letters. The upper-case forms of the micro sign and of y with
  diaeresis lie beyond code point 255 and are left in place here: like their real images,
  they are no ASCII letter.
\<close>

definition upper_char :: "char \<Rightarrow> string" where
  "upper_char c =
     (let n = (of_char c :: nat) in
      if 97 \<le> n \<and> n \<le> 122 then [char_of (n - 32)]
      else if n = 223 then ''SS''
      else if 224 \<le> n \<and> n \<le> 254 \<and> n \<noteq> 247 then [char_of (n - 32)]
      else [c])"

definition upper :: "string \<Rightarrow> string" where
  "upper s = concat (map upper_char s)"

section \<open>The dictionary\<close>

text \<open>
  A Python \<open>dict\<close> keeps its keys distinct and in insertion order, and \<open>save\<close> and
  \<open>print_store\<close> iterate in that order: an association list.
\<close>

type_synonym dict = "(string \<times> string) list"

text \<open>\<open>d[key] = value\<close>: an existing key keeps its position, a new key goes last.\<close>

fun dict_setitem :: "dict \<Rightarrow> string \<Rightarrow> string \<Rightarrow> dict" where
  "dict_setitem [] k v = [(k, v)]"
| "dict_setitem (e # es) k v =
     (if fst e = k then (k, v) # es else e # dict_setitem es k v)"

text \<open>\<open>key in d\<close> and \<open>d[key]\<close> are \<open>map_of d key\<close>; \<open>del d[key]\<close> drops the entry.\<close>

definition dict_delitem :: "dict \<Rightarrow> string \<Rightarrow> dict" where
  "dict_delitem d k = filter (\<lambda>e. fst e \<noteq> k) d"

section \<open>The store and its file\<close>

text \<open>
  The state of one \<open>KeyValueStore\<close> together with the part of the world it touches:
  the dictionary \<open>self.store\<close>, the contents of the file at \<open>self.filepath\<close> (\<open>None\<close>
  when \<open>os.path.exists\<close> is false), what the operating system will do at the next
  \<open>open(..., "w")\<close> and \<open>open(..., "r")\<close>, and the lines printed so far.

  An \<open>OpenFault\<close> is an exception raised by \<open>open\<close> itself; an \<open>IterFault n\<close> is an
  exception raised inside the loop after \<open>n\<close> rounds have completed (it does not occur when
  the loop has \<open>n\<close> rounds or fewer); a \<open>CloseFault n\<close> is an exception raised when the
  \<open>with\<close> block closes the file after the loop. Writes are buffered, so an error of the
  operating system (disk full, file size limit) shows up there, at the flush: the first \<open>n\<close>
  characters of the text have reached the file, which may end inside an entry. All three
  carry the text of the exception, and all three are raised inside the \<open>try\<close>.
\<close>

datatype io_fault = OpenFault string | IterFault nat string | CloseFault nat string

record kv_store =
  store :: dict
  file_text :: "string option"
  wfault :: "io_fault option"
  rfault :: "io_fault option"
  out :: "string list"

definition print_line :: "string \<Rightarrow> kv_store \<Rightarrow> kv_store" where
  "print_line msg s = s\<lparr>out := out s @ [msg]\<rparr>"

text \<open>The line \<open>save\<close> writes for one entry: \<open>f"{key}\t{value}\n"\<close>.\<close>

definition entry_line :: "string \<times> string \<Rightarrow> string" where
  "entry_line e = fst e @ [TAB] @ snd e @ [NL]"

definition render :: "dict \<Rightarrow> string" where
  "render d = concat (map entry_line d)"

text \<open>
  \<open>save\<close>: \<open>open(..., "w")\<close> truncates the file, then one write per entry, then the file is
  closed; any exception is caught and printed.
\<close>

definition save :: "kv_store \<Rightarrow> kv_store" where
  "save s =
     (case wfault s of
        None \<Rightarrow> s\<lparr>file_text := Some (render (store s))\<rparr>
      | Some (OpenFault e) \<Rightarrow> print_line (''[ERROR] Error saving data: '' @ e) s
      | Some (IterFault n e) \<Rightarrow>
          (if n < length (store s)
           then print_line (''[ERROR] Error saving data: '' @ e)
                  (s\<lparr>file_text := Some (render (take n (store s)))\<rparr>)
           else s\<lparr>file_text := Some (render (store s))\<rparr>)
      | Some (CloseFault n e) \<Rightarrow>
          print_line (''[ERROR] Error saving data: '' @ e)
            (s\<lparr>file_text := Some (take n (render (store s)))\<rparr>))"

definition added_msg :: "string \<Rightarrow> string \<Rightarrow> string" where
  "added_msg key val =
     ''Added key '' @ [QUOTE] @ key @ [QUOTE] @ '' with value '' @ [QUOTE] @ val @ [QUOTE, NL]"

definition not_found_msg :: "string \<Rightarrow> string" where
  "not_found_msg key = ''Key '' @ [QUOTE] @ key @ [QUOTE] @ '' not found.''"

definition removed_msg :: "string \<Rightarrow> string" where
  "removed_msg key = ''Removed key '' @ [QUOTE] @ key @ [QUOTE] @ ''.'' @ [NL]"

text \<open>\<open>set\<close>: returns the response and the state after the call.\<close>

definition set_kv :: "kv_store \<Rightarrow> string \<Rightarrow> string \<Rightarrow> string \<times> kv_store" where
  "set_kv s key val =
     (let s1 = print_line (''[DEBUG] Setting key '' @ [QUOTE] @ key @ [QUOTE] @ '' to value '' @
                            [QUOTE] @ val @ [QUOTE]) s;
          s2 = s1\<lparr>store := dict_setitem (store s1) key val\<rparr>;
          s3 = print_line ''[DEBUG] Calling save()'' s2;
          s4 = save s3;
          s5 = print_line ''[DEBUG] Finished save()'' s4
      in (added_msg key val, s5))"

definition get_kv :: "kv_store \<Rightarrow> string \<Rightarrow> string" where
  "get_kv s key =
     (case map_of (store s) key of Some v \<Rightarrow> v | None \<Rightarrow> not_found_msg key)"

definition remove_kv :: "kv_store \<Rightarrow> string \<Rightarrow> string \<times> kv_store" where
  "remove_kv s key =
     (if map_of (store s) key \<noteq> None
      then (removed_msg key, save (s\<lparr>store := dict_delitem (store s) key\<rparr>))
      else (not_found_msg key, s))"

definition print_store :: "kv_store \<Rightarrow> string" where
  "print_store s =
     (if store s = [] then ''Store is empty.\<newline>''
      else concat (map (\<lambda>e. ''[KEY]: '' @ fst e @ [TAB] @ ''[VALUE]: '' @ snd e @ [NL])
                       (store s)))"

text \<open>
  Reading the file in text mode. Universal newlines: \<open>"\r\n"\<close> and a lone \<open>"\r"\<close> arrive
  as \<open>"\n"\<close>. Iterating over the file yields the lines with their terminator, the last one
  without when the text does not end in a newline.
\<close>

fun universal_newlines :: "string \<Rightarrow> string" where
  "universal_newlines [] = []"
| "universal_newlines [c] = (if c = CR then [NL] else [c])"
| "universal_newlines (c # d # ds) =
     (if c = CR \<and> d = NL then NL # universal_newlines ds
      else if c = CR then NL # universal_newlines (d # ds)
      else c # universal_newlines (d # ds))"

fun readlines :: "string \<Rightarrow> string list" where
  "readlines [] = []"
| "readlines (c # cs) =
     (if c = NL then [NL] # readlines cs
      else (case readlines cs of [] \<Rightarrow> [[c]] | l # ls \<Rightarrow> (c # l) # ls))"

text \<open>The body of the loop of \<open>load\<close>, for one line of the file.\<close>

definition load_line :: "dict \<Rightarrow> string \<Rightarrow> dict" where
  "load_line d raw =
     (let line = strip raw in
      if line \<noteq> [] then
        (let parts = split_tab1 line in
         if length parts = 2 then dict_setitem d (parts ! 0) (parts ! 1) else d)
      else d)"

definition load :: "kv_store \<Rightarrow> kv_store" where
  "load s =
     (case file_text s of
        None \<Rightarrow> s
      | Some txt \<Rightarrow>
          (let lines = readlines (universal_newlines txt) in
           case rfault s of
             None \<Rightarrow> s\<lparr>store := foldl load_line (store s) lines\<rparr>
           | Some (OpenFault e) \<Rightarrow> print_line (''Error loading data: '' @ e) s
           | Some (IterFault n e) \<Rightarrow>
               (if n < length lines
                then print_line (''Error loading data: '' @ e)
                       (s\<lparr>store := foldl load_line (store s) (take n lines)\<rparr>)
                else s\<lparr>store := foldl load_line (store s) lines\<rparr>)
           | Some (CloseFault n e) \<Rightarrow>
               print_line (''Error loading data: '' @ e)
                 (s\<lparr>store := foldl load_line (store s) lines\<rparr>)))"

text \<open>
  \<open>KeyValueStore.__init__\<close>: a new instance in the world of \<open>w\<close> starts with an empty
  dictionary and loads the file.
\<close>

definition init_store :: "kv_store \<Rightarrow> kv_store" where
  "init_store w = load (w\<lparr>store := []\<rparr>)"

section \<open>The command interpreter\<close>

definition parse_and_execute :: "kv_store \<Rightarrow> string \<Rightarrow> string \<times> kv_store" where
  "parse_and_execute s raw =
     (let command = strip raw in
      if command = [] then (''ERROR: Empty command\<newline>'', s)
      else
        (let tokens = split_ws command in
         if tokens = [] then (''ERROR: Invalid command\<newline>'', s)
         else
           (let cmd = upper (tokens ! 0) in
            if cmd = ''SET'' then
              (if length tokens \<noteq> 3
               then (''ERROR: SET command requires 2 arguments: key and value\<newline>'', s)
               else set_kv s (tokens ! 1) (tokens ! 2))
            else if cmd = ''GET'' then
              (if length tokens \<noteq> 2
               then (''ERROR: GET command requires 1 argument: key\<newline>'', s)
               else (get_kv s (tokens ! 1), s))
            else if cmd = ''REMOVE'' then
              (if length tokens \<noteq> 2
               then (''ERROR: REMOVE command requires 1 argument: key\<newline>'', s)
               else remove_kv s (tokens ! 1))
            else if cmd = ''PRINT'' then (print_store s, s)
            else (''ERROR: Unknown command '' @ [QUOTE] @ tokens ! 0 @ [QUOTE, NL], s))))"

text \<open>A sequence of command lines, each given to \<open>parse_and_execute\<close> in turn.\<close>

fun execute_all :: "kv_store \<Rightarrow> string list \<Rightarrow> string list \<times> kv_store" where
  "execute_all s [] = ([], s)"
| "execute_all s (c # cs) =
     (let (r, s1) = parse_and_execute s c; (rs, s2) = execute_all s1 cs in (r # rs, s2))"

section \<open>Notions used in the statements\<close>

text \<open>
  \<open>write_raises s\<close>: an exception is raised inside \<open>save\<close> when it runs in state \<open>s\<close>
  (and is caught there).
\<close>

definition write_raises :: "kv_store \<Rightarrow> bool" where
  "write_raises s =
     (case wfault s of
        None \<Rightarrow> False
      | Some (OpenFault e) \<Rightarrow> True
      | Some (IterFault n e) \<Rightarrow> n < length (store s)
      | Some (CloseFault n e) \<Rightarrow> True)"

fun fault_text :: "io_fault \<Rightarrow> string" where
  "fault_text (OpenFault e) = e"
| "fault_text (IterFault n e) = e"
| "fault_text (CloseFault n e) = e"

text \<open>The file holds exactly the lines of the dictionary, in its order.\<close>

definition file_agrees :: "kv_store \<Rightarrow> bool" where
  "file_agrees s = (file_text s = Some (render (store s)))"

text \<open>
  The lines of the file that belong to key \<open>k\<close>: those whose text before the first tab
  is \<open>k\<close>. The lines are the newline-terminated pieces of the text as it was written.
\<close>

definition file_lines_for :: "kv_store \<Rightarrow> string \<Rightarrow> string list" where
  "file_lines_for s k =
     (case file_text s of
        None \<Rightarrow> []
      | Some content \<Rightarrow>
          filter (\<lambda>l. TAB \<in> set l \<and> takeWhile (\<lambda>c. c \<noteq> TAB) l = k) (readlines content))"

text \<open>
  An entry that \<open>save\<close> writes as one line whose first tab ends the key: no tab in the key,
  no newline in key or value.
\<close>

definition line_safe :: "string \<times> string \<Rightarrow> bool" where
  "line_safe e = (TAB \<notin> set (fst e) \<and> NL \<notin> set (fst e) \<and> NL \<notin> set (snd e))"

definition clean :: "string \<Rightarrow> bool" where
  "clean t = (NL \<notin> set t \<and> CR \<notin> set t)"

text \<open>
  An entry that survives \<open>save\<close> followed by \<open>load\<close>: it is line-safe and free of carriage
  returns, the key is not empty and does not begin with whitespace, the value is not empty
  and does not end with whitespace (\<open>load\<close> strips each line).
\<close>

definition storable :: "string \<times> string \<Rightarrow> bool" where
  "storable e =
     (line_safe e \<and> CR \<notin> set (fst e) \<and> CR \<notin> set (snd e)
      \<and> fst e \<noteq> [] \<and> \<not> isspace (hd (fst e))
      \<and> snd e \<noteq> [] \<and> \<not> isspace (last (snd e)))"

text \<open>A token of the wire protocol: not empty, no whitespace.\<close>

definition is_token :: "string \<Rightarrow> bool" where
  "is_token t = (t \<noteq> [] \<and> \<not> list_ex isspace t)"

text \<open>The dictionary has distinct keys and holds storable entries only.\<close>

definition store_ok :: "kv_store \<Rightarrow> bool" where
  "store_ok s = (distinct (map fst (store s)) \<and> list_all storable (store s))"

text \<open>
  One entry round-trips: a store holding just \<open>e\<close> is saved to a file that did not exist,
  with no fault, and a new store built on that file holds just \<open>e\<close> again.
\<close>

definition roundtrips :: "string \<times> string \<Rightarrow> bool" where
  "roundtrips e =
     (store (init_store (save \<lparr>store = [e], file_text = None, wfault = None, rfault = None,
                              out = []\<rparr>)) = [e])"

section \<open>Basic facts\<close>

lemma store_print_line [simp]: "store (print_line m s) = store s"
  by (simp add: print_line_def)

lemma file_print_line [simp]: "file_text (print_line m s) = file_text s"
  by (simp add: print_line_def)

lemma wfault_print_line [simp]: "wfault (print_line m s) = wfault s"
  by (simp add: print_line_def)

lemma rfault_print_line [simp]: "rfault (print_line m s) = rfault s"
  by (simp add: print_line_def)

lemma out_print_line [simp]: "out (print_line m s) = out s @ [m]"
  by (simp add: print_line_def)

lemma store_save [simp]: "store (save s) = store s"
  by (simp add: save_def split: option.splits io_fault.splits)

lemma wfault_save [simp]: "wfault (save s) = wfault s"
  by (simp add: save_def split: option.splits io_fault.splits)

lemma rfault_save [simp]: "rfault (save s) = rfault s"
  by (simp add: save_def split: option.splits io_fault.splits)

lemma fst_set_kv [simp]: "fst (set_kv s k v) = added_msg k v"
  by (simp add: set_kv_def Let_def)

lemma store_set_kv [simp]: "store (snd (set_kv s k v)) = dict_setitem (store s) k v"
  by (simp add: set_kv_def Let_def)

lemma map_of_dict_setitem: "map_of (dict_setitem d k v) = (map_of d)(k \<mapsto> v)"
  by (induction d) (auto simp: fun_eq_iff)

lemma save_ok: "\<not> write_raises s \<Longrightarrow> file_agrees (save s) \<and> out (save s) = out s"
  by (auto simp: write_raises_def file_agrees_def save_def split: option.splits io_fault.splits)

lemma save_raises:
  "wfault s = Some f \<Longrightarrow> write_raises s \<Longrightarrow>
     out (save s) = out s @ [''[ERROR] Error saving data: '' @ fault_text f]"
  by (auto simp: write_raises_def save_def split: option.splits io_fault.splits)

lemma write_raises_cong:
  "wfault s = wfault t \<Longrightarrow> store s = store t \<Longrightarrow> write_raises s = write_raises t"
  by (auto simp: write_raises_def split: option.splits io_fault.splits)

lemma file_agrees_print_line [simp]: "file_agrees (print_line m s) = file_agrees s"
  by (simp add: file_agrees_def)

section \<open>The interpreter on concrete lines\<close>

lemma parse_SET_a_1: "parse_and_execute s ''SET a 1'' = set_kv s ''a'' ''1''"
  by (simp add: parse_and_execute_def strip_def rstrip_def isspace_def split_ws_def
        upper_def upper_char_def Let_def)

lemma parse_GET_a: "parse_and_execute s ''GET a'' = (get_kv s ''a'', s)"
  by (simp add: parse_and_execute_def strip_def rstrip_def isspace_def split_ws_def
        upper_def upper_char_def Let_def)

lemma parse_REMOVE_a: "parse_and_execute s ''REMOVE a'' = remove_kv s ''a''"
  by (simp add: parse_and_execute_def strip_def rstrip_def isspace_def split_ws_def
        upper_def upper_char_def Let_def)

lemma parse_PRINT: "parse_and_execute s ''PRINT'' = (print_store s, s)"
  by (simp add: parse_and_execute_def strip_def rstrip_def isspace_def split_ws_def
        upper_def upper_char_def Let_def)

text \<open>
  Claim C7. Starting from an empty store, whatever the file and the faults of the world,
  the lines \<open>SET a 1\<close>, \<open>GET a\<close>, \<open>REMOVE a\<close>, \<open>GET a\<close>, \<open>PRINT\<close> are answered, in this
  order, by the confirmation of the addition, the value \<open>1\<close>, the confirmation of the
  removal, the not-found text and the empty-store text.
\<close>

theorem scenario_set_get_remove_get_print:
  "fst (execute_all \<lparr>store = [], file_text = f, wfault = w, rfault = r, out = l\<rparr>
          [''SET a 1'', ''GET a'', ''REMOVE a'', ''GET a'', ''PRINT'']) =
     [''Added key 'a' with value '1'\<newline>'', ''1'', ''Removed key 'a'.\<newline>'',
      ''Key 'a' not found.'', ''Store is empty.\<newline>'']"
  by (simp add: parse_SET_a_1 parse_GET_a parse_REMOVE_a parse_PRINT split_beta
        get_kv_def remove_kv_def dict_delitem_def print_store_def
        added_msg_def removed_msg_def not_found_msg_def)

section \<open>Missing keys\<close>

text \<open>
  Claim C10. For a key \<open>k\<close> absent from a store \<open>s\<close>, \<open>get\<close> and \<open>remove\<close> return the same
  text \<open>Key '<k>' not found.\<close>, which does not end in a newline; and a store \<open>t\<close> in which
  \<open>k\<close> maps to that very text answers \<open>get(k)\<close> with the same string, so the result of
  \<open>get\<close> alone does not tell a hit from a miss.
\<close>

theorem not_found_text_shared:
  assumes "map_of (store s) k = None" and "map_of (store t) k = Some (not_found_msg k)"
  shows "get_kv s k = ''Key '' @ [QUOTE] @ k @ [QUOTE] @ '' not found.''
       \<and> fst (remove_kv s k) = get_kv s k
       \<and> last (get_kv s k) \<noteq> NL
       \<and> get_kv t k = get_kv s k"
  using assms by (simp add: get_kv_def remove_kv_def not_found_msg_def)

theorem not_found_text_shared_witness:
  "map_of (store \<lparr>store = [], file_text = None, wfault = None, rfault = None, out = []\<rparr>) ''a'' = None
   \<and> map_of (store \<lparr>store = [(''a'', not_found_msg ''a'')], file_text = None, wfault = None,
                     rfault = None, out = []\<rparr>) ''a'' = Some (not_found_msg ''a'')
   \<and> get_kv \<lparr>store = [], file_text = None, wfault = None, rfault = None, out = []\<rparr> ''a''
       = ''Key 'a' not found.''
   \<and> get_kv \<lparr>store = [(''a'', not_found_msg ''a'')], file_text = None, wfault = None,
              rfault = None, out = []\<rparr> ''a'' = ''Key 'a' not found.''"
  using not_found_text_shared
    [of "\<lparr>store = [], file_text = None, wfault = None, rfault = None, out = []\<rparr>" "''a''"
        "\<lparr>store = [(''a'', not_found_msg ''a'')], file_text = None, wfault = None,
          rfault = None, out = []\<rparr>"]
  by simp

section \<open>A write that fails\<close>

text \<open>
  Claim C6. When the write inside \<open>set\<close> raises (the file cannot be opened, a write fails
  inside the loop, or the flush at the close of the file fails and leaves the file cut),
  \<open>set\<close> still returns the usual confirmation, the same text as when nothing fails; the new
  entry is in the dictionary, as \<open>get\<close> shows; and what the call prints is exactly the two
  debug lines, the \<open>[ERROR] Error saving data\<close> line with the text of the exception, and
  the last debug line.
\<close>

theorem set_confirms_when_write_fails:
  assumes "wfault s = Some f"
    and "write_raises (s\<lparr>store := dict_setitem (store s) k v\<rparr>)"
  shows "fst (set_kv s k v) =
           ''Added key '' @ [QUOTE] @ k @ [QUOTE] @ '' with value '' @ [QUOTE] @ v @ [QUOTE, NL]
       \<and> fst (set_kv s k v) = fst (set_kv (s\<lparr>wfault := None\<rparr>) k v)
       \<and> store (snd (set_kv s k v)) = dict_setitem (store s) k v
       \<and> get_kv (snd (set_kv s k v)) k = v
       \<and> drop (length (out s)) (out (snd (set_kv s k v))) =
           [''[DEBUG] Setting key '' @ [QUOTE] @ k @ [QUOTE] @ '' to value '' @
              [QUOTE] @ v @ [QUOTE],
            ''[DEBUG] Calling save()'',
            ''[ERROR] Error saving data: '' @ fault_text f,
            ''[DEBUG] Finished save()'']"
proof -
  let ?s3 = "print_line ''[DEBUG] Calling save()''
     ((print_line (''[DEBUG] Setting key '' @ [QUOTE] @ k @ [QUOTE] @ '' to value '' @
                            [QUOTE] @ v @ [QUOTE]) s)\<lparr>store := dict_setitem (store s) k v\<rparr>)"
  have w: "wfault ?s3 = Some f" using assms(1) by simp
  have "write_raises ?s3 = write_raises (s\<lparr>store := dict_setitem (store s) k v\<rparr>)"
    by (rule write_raises_cong) simp_all
  then have r: "write_raises ?s3" using assms(2) by simp
  have "out (snd (set_kv s k v)) = out (save ?s3) @ [''[DEBUG] Finished save()'']"
    by (simp add: set_kv_def Let_def)
  then have "out (snd (set_kv s k v)) =
      out s @ [''[DEBUG] Setting key '' @ [QUOTE] @ k @ [QUOTE] @ '' to value '' @
              [QUOTE] @ v @ [QUOTE],
            ''[DEBUG] Calling save()'',
            ''[ERROR] Error saving data: '' @ fault_text f,
            ''[DEBUG] Finished save()'']"
    using save_raises [OF w r] by simp
  moreover have "get_kv (snd (set_kv s k v)) k = v"
    by (simp add: get_kv_def map_of_dict_setitem)
  ultimately show ?thesis by (simp add: added_msg_def)
qed

theorem set_confirms_when_write_fails_witness:
  "fst (set_kv \<lparr>store = [], file_text = None, wfault = Some (OpenFault ''Permission denied''),
                rfault = None, out = []\<rparr> ''a'' ''1'') = ''Added key 'a' with value '1'\<newline>''
   \<and> get_kv (snd (set_kv \<lparr>store = [], file_text = None,
                wfault = Some (OpenFault ''Permission denied''), rfault = None, out = []\<rparr>
                ''a'' ''1'')) ''a'' = ''1''
   \<and> out (snd (set_kv \<lparr>store = [], file_text = None,
                wfault = Some (OpenFault ''Permission denied''), rfault = None, out = []\<rparr>
                ''a'' ''1''))
       = [''[DEBUG] Setting key 'a' to value '' @ [QUOTE] @ ''1'' @ [QUOTE],
          ''[DEBUG] Calling save()'',
          ''[ERROR] Error saving data: Permission denied'', ''[DEBUG] Finished save()'']
   \<and> fst (set_kv \<lparr>store = [(''a'', ''1'')], file_text = None,
                wfault = Some (CloseFault 5 ''File too large''), rfault = None, out = []\<rparr>
                ''b'' ''2'') = ''Added key 'b' with value '2'\<newline>''
   \<and> get_kv (snd (set_kv \<lparr>store = [(''a'', ''1'')], file_text = None,
                wfault = Some (CloseFault 5 ''File too large''), rfault = None, out = []\<rparr>
                ''b'' ''2'')) ''b'' = ''2''
   \<and> file_text (snd (set_kv \<lparr>store = [(''a'', ''1'')], file_text = None,
                wfault = Some (CloseFault 5 ''File too large''), rfault = None, out = []\<rparr>
                ''b'' ''2'')) = Some (''a'' @ [TAB] @ ''1'' @ [NL] @ ''b'')
   \<and> ''[ERROR] Error saving data: File too large''
        \<in> set (out (snd (set_kv \<lparr>store = [(''a'', ''1'')], file_text = None,
                wfault = Some (CloseFault 5 ''File too large''), rfault = None, out = []\<rparr>
                ''b'' ''2'')))"
  using set_confirms_when_write_fails
    [of "\<lparr>store = [], file_text = None, wfault = Some (OpenFault ''Permission denied''),
          rfault = None, out = []\<rparr>" "OpenFault ''Permission denied''" "''a''" "''1''"]
    set_confirms_when_write_fails
    [of "\<lparr>store = [(''a'', ''1'')], file_text = None,
          wfault = Some (CloseFault 5 ''File too large''), rfault = None, out = []\<rparr>"
        "CloseFault 5 ''File too large''" "''b''" "''2''"]
  by (simp add: write_raises_def set_kv_def save_def print_line_def render_def entry_line_def
        Let_def)

section \<open>Dictionary facts\<close>

lemma set_dict_setitem: "set (dict_setitem d k v) \<subseteq> insert (k, v) (set d)"
  by (induction d) auto

lemma dict_setitem_fresh: "k \<notin> fst ` set d \<Longrightarrow> dict_setitem d k v = d @ [(k, v)]"
  by (induction d) auto

lemma distinct_dict_setitem: "distinct (map fst d) \<Longrightarrow> distinct (map fst (dict_setitem d k v))"
proof (induction d)
  case Nil
  then show ?case by simp
next
  case (Cons e d)
  have "fst ` set (dict_setitem d k v) \<subseteq> insert k (fst ` set d)"
    using set_dict_setitem [of d k v] by auto
  then show ?case using Cons by auto
qed

lemma distinct_dict_delitem: "distinct (map fst d) \<Longrightarrow> distinct (map fst (dict_delitem d k))"
  by (simp add: dict_delitem_def distinct_map_filter)


lemma list_all_dict_setitem: "list_all P d \<Longrightarrow> P (k, v) \<Longrightarrow> list_all P (dict_setitem d k v)"
  by (induction d) auto

lemma list_all_dict_delitem: "list_all P d \<Longrightarrow> list_all P (dict_delitem d k)"
  by (simp add: dict_delitem_def list_all_iff)

lemma filter_key_dict_setitem:
  "distinct (map fst d) \<Longrightarrow> filter (\<lambda>e. fst e = k) (dict_setitem d k v) = [(k, v)]"
proof (induction d)
  case Nil
  then show ?case by simp
next
  case (Cons e d)
  show ?case
  proof (cases "fst e = k")
    case True
    then have "k \<notin> fst ` set d" using Cons.prems by auto
    then have "filter (\<lambda>e. fst e = k) d = []" by (auto simp: filter_empty_conv)
    then show ?thesis using True by simp
  next
    case False
    then show ?thesis using Cons by simp
  qed
qed

section \<open>Stripping and splitting\<close>

lemma isspace_TAB [simp]: "isspace TAB" by (simp add: isspace_def)
lemma isspace_NL [simp]: "isspace NL" by (simp add: isspace_def)
lemma isspace_CR [simp]: "isspace CR" by (simp add: isspace_def)

lemma rstrip_snoc_space: "isspace c \<Longrightarrow> rstrip (t @ [c]) = rstrip t"
  by (simp add: rstrip_def)

lemma rstrip_id: "t \<noteq> [] \<Longrightarrow> \<not> isspace (last t) \<Longrightarrow> rstrip t = t"
  by (cases t rule: rev_cases) (simp_all add: rstrip_def)

lemma strip_line:
  assumes "t \<noteq> []" and "\<not> isspace (hd t)" and "\<not> isspace (last t)"
  shows "strip (t @ [NL]) = t"
proof -
  have "dropWhile isspace (t @ [NL]) = t @ [NL]" using assms(1,2) by (cases t) simp_all
  then have "strip (t @ [NL]) = rstrip (t @ [NL])" by (simp add: strip_def)
  also have "\<dots> = rstrip t" by (simp add: rstrip_snoc_space)
  also have "\<dots> = t" using assms(1,3) by (rule rstrip_id)
  finally show ?thesis .
qed

lemma rstrip_last: "rstrip t \<noteq> [] \<Longrightarrow> \<not> isspace (last (rstrip t))"
proof -
  assume a: "rstrip t \<noteq> []"
  then have "dropWhile isspace (rev t) \<noteq> []" by (simp add: rstrip_def)
  then have "\<not> isspace (hd (dropWhile isspace (rev t)))" by (rule hd_dropWhile)
  moreover have "last (rstrip t) = hd (dropWhile isspace (rev t))"
    using \<open>dropWhile isspace (rev t) \<noteq> []\<close> by (simp add: rstrip_def last_rev)
  ultimately show ?thesis by simp
qed

lemma rstrip_prefix: "\<exists>w. t = rstrip t @ w"
proof -
  have "rstrip t @ rev (takeWhile isspace (rev t)) =
          rev (takeWhile isspace (rev t) @ dropWhile isspace (rev t))"
    unfolding rstrip_def by (rule rev_append [symmetric])
  also have "\<dots> = t" by simp
  finally have "t = rstrip t @ rev (takeWhile isspace (rev t))" by simp
  then show ?thesis ..
qed

lemma rstrip_hd: "rstrip t \<noteq> [] \<Longrightarrow> hd (rstrip t) = hd t"
  using rstrip_prefix [of t] by (metis hd_append2)

lemma strip_ends:
  assumes "strip t \<noteq> []"
  shows "\<not> isspace (hd (strip t)) \<and> \<not> isspace (last (strip t))"
proof -
  let ?u = "dropWhile isspace t"
  have n: "rstrip ?u \<noteq> []" using assms by (simp add: strip_def)
  moreover have "rstrip [] = []" by (simp add: rstrip_def)
  ultimately have "?u \<noteq> []" by metis
  then have "\<not> isspace (hd ?u)" by (rule hd_dropWhile)
  then have "\<not> isspace (hd (rstrip ?u))" using rstrip_hd [OF n] by simp
  then show ?thesis using rstrip_last [OF n] by (simp add: strip_def)
qed

lemma set_rstrip: "set (rstrip t) \<subseteq> set t"
  using rstrip_prefix [of t] by (metis Un_upper1 set_append)

lemma set_strip: "set (strip t) \<subseteq> set t"
proof -
  have "set (strip t) \<subseteq> set (dropWhile isspace t)" unfolding strip_def by (rule set_rstrip)
  also have "\<dots> \<subseteq> set t" by (rule set_dropWhileD [THEN subsetI])
  finally show ?thesis .
qed

lemma rstrip_no_NL: "NL \<notin> set (butlast t) \<Longrightarrow> NL \<notin> set (rstrip t)"
proof (cases t rule: rev_cases)
  case Nil
  then show ?thesis by (simp add: rstrip_def)
next
  case (snoc ys y)
  assume "NL \<notin> set (butlast t)"
  then have ys: "NL \<notin> set ys" using snoc by simp
  show ?thesis
  proof (cases "isspace y")
    case True
    then have "rstrip t = rstrip ys" using snoc by (simp add: rstrip_snoc_space)
    then show ?thesis using ys set_rstrip [of ys] by auto
  next
    case False
    then have "y \<noteq> NL" by auto
    moreover have "rstrip t = t" using False snoc by (simp add: rstrip_id)
    ultimately show ?thesis using ys snoc by simp
  qed
qed

lemma butlast_dropWhile: "set (butlast (dropWhile P t)) \<subseteq> set (butlast t)"
proof (cases "dropWhile P t = []")
  case True
  then show ?thesis by (metis butlast.simps(1) empty_set empty_subsetI)
next
  case False
  have "butlast t = butlast (takeWhile P t @ dropWhile P t)" by simp
  also have "\<dots> = takeWhile P t @ butlast (dropWhile P t)"
    using False by (simp only: butlast_append if_False)
  finally show ?thesis by simp
qed

lemma strip_no_NL: "NL \<notin> set (butlast t) \<Longrightarrow> NL \<notin> set (strip t)"
  unfolding strip_def using butlast_dropWhile [of isspace t] by (intro rstrip_no_NL) auto

lemma split_tab1_entry: "TAB \<notin> set k \<Longrightarrow> split_tab1 (k @ TAB # v) = [k, v]"
  by (induction k) (auto simp: split_tab1_def)

lemma split_tab1_two:
  assumes "split_tab1 l = [k, v]"
  shows "l = k @ TAB # v \<and> TAB \<notin> set k"
proof -
  have t: "TAB \<in> set l" using assms by (auto simp: split_tab1_def split: if_splits)
  then have k: "k = takeWhile (\<lambda>c. c \<noteq> TAB) l" and v: "v = tl (dropWhile (\<lambda>c. c \<noteq> TAB) l)"
    using assms by (auto simp: split_tab1_def)
  from t have "dropWhile (\<lambda>c. c \<noteq> TAB) l \<noteq> []" by simp
  moreover from this have "hd (dropWhile (\<lambda>c. c \<noteq> TAB) l) = TAB"
    using hd_dropWhile [of "\<lambda>c. c \<noteq> TAB" l] by simp
  ultimately have "dropWhile (\<lambda>c. c \<noteq> TAB) l = TAB # v" using v by (cases "dropWhile (\<lambda>c. c \<noteq> TAB) l") auto
  then have "l = k @ TAB # v" using k takeWhile_dropWhile_id [of "\<lambda>c. c \<noteq> TAB" l] by simp
  moreover have "TAB \<notin> set k" using k by (auto dest: set_takeWhileD)
  ultimately show ?thesis by simp
qed

lemma split_tab1_length: "length (split_tab1 l) = 2 \<Longrightarrow> \<exists>k v. split_tab1 l = [k, v]"
  by (auto simp: split_tab1_def split: if_splits)

section \<open>The lines of a saved file\<close>

lemma universal_newlines_id: "CR \<notin> set t \<Longrightarrow> universal_newlines t = t"
  by (induction t rule: universal_newlines.induct) auto

lemma universal_newlines_no_CR: "CR \<notin> set (universal_newlines t)"
  by (induction t rule: universal_newlines.induct) auto

lemma readlines_line: "NL \<notin> set l \<Longrightarrow> readlines (l @ NL # r) = (l @ [NL]) # readlines r"
  by (induction l) auto

lemma concat_readlines: "concat (readlines t) = t"
  by (induction t) (auto split: list.splits)

lemma readlines_butlast: "l \<in> set (readlines t) \<Longrightarrow> NL \<notin> set (butlast l)"
  by (induction t arbitrary: l) (auto split: if_splits list.splits)

lemma readlines_render:
  "list_all line_safe d \<Longrightarrow> readlines (render d) = map entry_line d"
proof (induction d)
  case Nil
  then show ?case by (simp add: render_def)
next
  case (Cons e d)
  have "NL \<notin> set (fst e @ TAB # snd e)" using Cons.prems by (simp add: line_safe_def)
  then have "readlines ((fst e @ TAB # snd e) @ NL # render d)
               = ((fst e @ TAB # snd e) @ [NL]) # readlines (render d)"
    by (rule readlines_line)
  then show ?case using Cons by (simp add: render_def entry_line_def)
qed

lemma storable_line_safe: "storable e \<Longrightarrow> line_safe e"
  by (simp add: storable_def)

lemma render_no_CR: "list_all storable d \<Longrightarrow> CR \<notin> set (render d)"
  by (induction d) (auto simp: render_def entry_line_def storable_def)

lemma key_field_entry_line:
  "TAB \<notin> set (fst e) \<Longrightarrow>
     (TAB \<in> set (entry_line e) \<and> takeWhile (\<lambda>c. c \<noteq> TAB) (entry_line e) = k) = (fst e = k)"
proof -
  assume "TAB \<notin> set (fst e)"
  then have "takeWhile (\<lambda>c. c \<noteq> TAB) (fst e @ TAB # snd e @ [NL]) = fst e"
    by (induction "fst e") (auto simp: takeWhile_append)
  then show ?thesis by (auto simp: entry_line_def)
qed

lemma filter_lines_render:
  "list_all line_safe d \<Longrightarrow>
     filter (\<lambda>l. TAB \<in> set l \<and> takeWhile (\<lambda>c. c \<noteq> TAB) l = k) (map entry_line d)
       = map entry_line (filter (\<lambda>e. fst e = k) d)"
  by (induction d) (auto simp: key_field_entry_line line_safe_def)

section \<open>Loading\<close>

lemma load_line_entry:
  assumes "storable e"
  shows "load_line d (entry_line e) = dict_setitem d (fst e) (snd e)"
proof -
  obtain k v where e: "e = (k, v)" by (cases e)
  have s: "strip ((k @ TAB # v) @ [NL]) = k @ TAB # v"
    using assms e by (intro strip_line) (auto simp: storable_def)
  have "TAB \<notin> set k" using assms e by (simp add: storable_def line_safe_def)
  then show ?thesis
    using s e by (simp add: load_line_def entry_line_def split_tab1_entry Let_def)
qed

lemma foldl_load_line_render:
  "list_all storable d \<Longrightarrow> distinct (map fst (acc @ d)) \<Longrightarrow>
     foldl load_line acc (map entry_line d) = acc @ d"
proof (induction d arbitrary: acc)
  case Nil
  then show ?case by simp
next
  case (Cons e d)
  have "load_line acc (entry_line e) = dict_setitem acc (fst e) (snd e)"
    using Cons.prems(1) by (simp add: load_line_entry)
  also have "\<dots> = acc @ [e]" using Cons.prems(2) by (simp add: dict_setitem_fresh)
  finally have "foldl load_line acc (map entry_line (e # d))
                  = foldl load_line (acc @ [e]) (map entry_line d)" by simp
  also have "\<dots> = (acc @ [e]) @ d" using Cons.prems by (intro Cons.IH) simp_all
  finally show ?case by simp
qed

lemma load_render:
  assumes "list_all storable d" and "distinct (map fst d)"
    and "file_text w = Some (render d)" and "rfault w = None"
  shows "store (init_store w) = d"
proof -
  have "universal_newlines (render d) = render d"
    using assms(1) by (simp add: universal_newlines_id render_no_CR)
  moreover have "readlines (render d) = map entry_line d"
    using assms(1) by (intro readlines_render) (auto simp: list_all_iff storable_line_safe)
  moreover have "foldl load_line [] (map entry_line d) = [] @ d"
    using assms(1,2) by (intro foldl_load_line_render) simp_all
  ultimately show ?thesis using assms(3,4) by (simp add: init_store_def load_def Let_def)
qed


lemma load_line_result:
  assumes "CR \<notin> set raw" and "NL \<notin> set (butlast raw)"
  shows "load_line d raw = d \<or> (\<exists>k v. storable (k, v) \<and> load_line d raw = dict_setitem d k v)"
proof (cases "strip raw \<noteq> [] \<and> length (split_tab1 (strip raw)) = 2")
  case False
  then show ?thesis by (auto simp: load_line_def Let_def)
next
  case True
  then obtain k v where kv: "split_tab1 (strip raw) = [k, v]" using split_tab1_length by blast
  then have l: "load_line d raw = dict_setitem d k v" using True by (simp add: load_line_def Let_def)
  have s: "strip raw = k @ TAB # v" and t: "TAB \<notin> set k" using split_tab1_two [OF kv] by simp_all
  have "clean (strip raw)"
    using assms set_strip [of raw] strip_no_NL [of raw] by (auto simp: clean_def)
  then have c: "clean k \<and> clean v" using s by (simp add: clean_def)
  have "\<not> isspace (hd (k @ TAB # v)) \<and> \<not> isspace (last (k @ TAB # v))"
    using strip_ends [of raw] True s by simp
  then have "k \<noteq> [] \<and> \<not> isspace (hd k) \<and> v \<noteq> [] \<and> \<not> isspace (last v)"
    by (cases k; cases v rule: rev_cases) auto
  then have "storable (k, v)" using c t by (simp add: storable_def line_safe_def clean_def)
  then show ?thesis using l by blast
qed

lemma load_line_clean:
  assumes "CR \<notin> set raw" and "NL \<notin> set (butlast raw)"
    and "e \<in> set (load_line d raw)"
  shows "e \<in> set d \<or> (clean (fst e) \<and> clean (snd e))"
proof (cases "strip raw \<noteq> [] \<and> length (split_tab1 (strip raw)) = 2")
  case False
  then have "load_line d raw = d" by (auto simp: load_line_def Let_def)
  then show ?thesis using assms(3) by simp
next
  case True
  then obtain k v where kv: "split_tab1 (strip raw) = [k, v]" using split_tab1_length by blast
  then have l: "load_line d raw = dict_setitem d k v" using True by (simp add: load_line_def Let_def)
  have "strip raw = k @ TAB # v" using split_tab1_two [OF kv] by simp
  moreover have "clean (strip raw)"
    using assms(1,2) set_strip [of raw] strip_no_NL [of raw] by (auto simp: clean_def)
  ultimately have "clean k \<and> clean v" by (simp add: clean_def)
  then show ?thesis using assms(3) l set_dict_setitem [of d k v] by auto
qed

lemma foldl_load_line_clean:
  assumes "\<forall>l \<in> set ls. CR \<notin> set l \<and> NL \<notin> set (butlast l)"
    and "e \<in> set (foldl load_line d ls)"
  shows "e \<in> set d \<or> (clean (fst e) \<and> clean (snd e))"
  using assms
proof (induction ls arbitrary: d)
  case Nil
  then show ?case by simp
next
  case (Cons l ls)
  from Cons.prems have "e \<in> set (load_line d l) \<or> (clean (fst e) \<and> clean (snd e))"
    by (intro Cons.IH) simp_all
  then show ?case using Cons.prems(1) load_line_clean [of l e d] by auto
qed

lemma loaded_clean:
  assumes "file_text w = Some txt" and "rfault w = None" and "e \<in> set (store (init_store w))"
  shows "clean (fst e) \<and> clean (snd e)"
proof -
  let ?ls = "readlines (universal_newlines txt)"
  have "\<forall>l \<in> set ?ls. CR \<notin> set l \<and> NL \<notin> set (butlast l)"
  proof
    fix l assume l: "l \<in> set ?ls"
    then have "set l \<subseteq> set (concat ?ls)" by auto
    then have "CR \<notin> set l" using universal_newlines_no_CR [of "txt"] by (auto simp: concat_readlines)
    then show "CR \<notin> set l \<and> NL \<notin> set (butlast l)" using l readlines_butlast by blast
  qed
  moreover have "e \<in> set (foldl load_line [] ?ls)"
    using assms by (simp add: init_store_def load_def Let_def)
  ultimately have "e \<in> set [] \<or> (clean (fst e) \<and> clean (snd e))"
    by (rule foldl_load_line_clean)
  then show ?thesis by simp
qed

lemma store_ok_foldl_load_line:
  assumes "\<forall>l \<in> set ls. CR \<notin> set l \<and> NL \<notin> set (butlast l)"
    and "distinct (map fst d) \<and> list_all storable d"
  shows "distinct (map fst (foldl load_line d ls)) \<and> list_all storable (foldl load_line d ls)"
  using assms
proof (induction ls arbitrary: d)
  case Nil
  then show ?case by simp
next
  case (Cons l ls)
  have "distinct (map fst (load_line d l)) \<and> list_all storable (load_line d l)"
    using load_line_result [of l d] Cons.prems
    by (auto simp: distinct_dict_setitem list_all_dict_setitem)
  then show ?case using Cons.prems(1) Cons.IH [of "load_line d l"] by simp
qed

lemma store_ok_init_store: "store_ok (init_store w)"
proof (cases "file_text w")
  case None
  then show ?thesis by (simp add: store_ok_def init_store_def load_def)
next
  case (Some content)
  let ?ls = "readlines (universal_newlines content)"
  have a: "\<forall>l \<in> set ?ls. CR \<notin> set l \<and> NL \<notin> set (butlast l)"
  proof
    fix l assume l: "l \<in> set ?ls"
    then have "set l \<subseteq> set (concat ?ls)" by auto
    then have "CR \<notin> set l"
      using universal_newlines_no_CR [of content] by (auto simp: concat_readlines)
    then show "CR \<notin> set l \<and> NL \<notin> set (butlast l)" using l readlines_butlast by blast
  qed
  have b: "distinct (map fst (foldl load_line [] (take n ?ls)))
         \<and> list_all storable (foldl load_line [] (take n ?ls))" for n
    using a by (intro store_ok_foldl_load_line) (auto dest: in_set_takeD)
  from b [of "length ?ls"] have c: "distinct (map fst (foldl load_line [] ?ls))
         \<and> list_all storable (foldl load_line [] ?ls)" by simp
  show ?thesis
    using Some b c
    by (auto simp: store_ok_def init_store_def load_def Let_def split: option.splits io_fault.splits)
qed

lemma load_line_single:
  assumes "load_line [] raw = [(k, v)]"
  shows "strip raw = k @ TAB # v \<and> TAB \<notin> set k"
proof -
  have t: "strip raw \<noteq> [] \<and> length (split_tab1 (strip raw)) = 2"
    using assms by (auto simp: load_line_def Let_def split: if_splits)
  then obtain k' v' where kv: "split_tab1 (strip raw) = [k', v']" using split_tab1_length by blast
  then have "load_line [] raw = [(k', v')]" using t by (simp add: load_line_def Let_def)
  then have "k' = k \<and> v' = v" using assms by simp
  then show ?thesis using split_tab1_two [OF kv] by simp
qed

lemma roundtrips_load_line:
  assumes "clean k" and "clean v"
  shows "roundtrips (k, v) = (load_line [] (entry_line (k, v)) = [(k, v)])"
proof -
  let ?l = "k @ TAB # v"
  have c: "CR \<notin> set (?l @ [NL])" using assms by (simp add: clean_def)
  have "NL \<notin> set ?l" using assms by (simp add: clean_def)
  then have "readlines (?l @ NL # []) = (?l @ [NL]) # readlines []" by (rule readlines_line)
  then have "readlines (universal_newlines (?l @ [NL])) = [?l @ [NL]]"
    using universal_newlines_id [OF c] by simp
  then show ?thesis
    by (simp add: roundtrips_def init_store_def load_def save_def render_def entry_line_def Let_def)
qed

section \<open>Saving inside a mutation\<close>



lemma file_text_set_kv:
  "\<not> write_raises (s\<lparr>store := dict_setitem (store s) k v\<rparr>) \<Longrightarrow>
     file_agrees (snd (set_kv s k v))"
proof -
  let ?s3 = "print_line ''[DEBUG] Calling save()''
     ((print_line (''[DEBUG] Setting key '' @ [QUOTE] @ k @ [QUOTE] @ '' to value '' @
                            [QUOTE] @ v @ [QUOTE]) s)\<lparr>store := dict_setitem (store s) k v\<rparr>)"
  assume a: "\<not> write_raises (s\<lparr>store := dict_setitem (store s) k v\<rparr>)"
  have "write_raises ?s3 = write_raises (s\<lparr>store := dict_setitem (store s) k v\<rparr>)"
    by (rule write_raises_cong) simp_all
  then have "file_agrees (save ?s3)" using a save_ok by simp
  then show ?thesis by (simp add: set_kv_def Let_def)
qed




section \<open>Tokens and the stores the interpreter builds\<close>

lemma split_ws_Nil [simp]: "split_ws [] = []"
  by (simp add: split_ws_def)

lemma split_acc_tokens:
  "\<not> list_ex isspace cur \<Longrightarrow> t \<in> set (split_acc cur s) \<Longrightarrow> is_token t"
proof (induction s arbitrary: cur)
  case Nil
  then show ?case by (auto simp: is_token_def split: if_splits)
next
  case (Cons c s)
  show ?case
  proof (cases "isspace c")
    case True
    then have "t = cur \<and> cur \<noteq> [] \<or> t \<in> set (split_acc [] s)"
      using Cons.prems(2) by (auto split: if_splits)
    then show ?thesis using Cons.prems(1) Cons.IH [of "[]"] by (auto simp: is_token_def)
  next
    case False
    then have "t \<in> set (split_acc (cur @ [c]) s)" using Cons.prems(2) by simp
    moreover have "\<not> list_ex isspace (cur @ [c])" using False Cons.prems(1) by simp
    ultimately show ?thesis using Cons.IH by blast
  qed
qed

lemma split_ws_tokens: "t \<in> set (split_ws s) \<Longrightarrow> is_token t"
  unfolding split_ws_def by (rule split_acc_tokens [of "[]"]) simp_all

lemma token_storable: "is_token k \<Longrightarrow> is_token v \<Longrightarrow> storable (k, v)"
proof -
  assume k: "is_token k" and v: "is_token v"
  then have "\<forall>c \<in> set k \<union> set v. \<not> isspace c" by (auto simp: is_token_def list_ex_iff)
  moreover have "hd k \<in> set k" and "last v \<in> set v" using k v by (simp_all add: is_token_def)
  ultimately have "\<not> isspace (hd k) \<and> \<not> isspace (last v) \<and> TAB \<notin> set k
      \<and> NL \<notin> set k \<and> NL \<notin> set v \<and> CR \<notin> set k \<and> CR \<notin> set v"
    using isspace_TAB isspace_NL isspace_CR by blast
  then show ?thesis using k v by (simp add: storable_def line_safe_def is_token_def)
qed

lemma store_ok_parse_and_execute:
  assumes "store_ok s"
  shows "store_ok (snd (parse_and_execute s raw))"
proof -
  let ?ts = "split_ws (strip raw)"
  have tok: "length ?ts = 3 \<Longrightarrow> storable (?ts ! 1, ?ts ! 2)"
  proof -
    assume "length ?ts = 3"
    then have "?ts ! 1 \<in> set ?ts" and "?ts ! 2 \<in> set ?ts" by simp_all
    then show ?thesis using split_ws_tokens token_storable by blast
  qed
  have set: "storable (k, v) \<Longrightarrow> store_ok (snd (set_kv s k v))" for k v
    using assms by (simp add: store_ok_def distinct_dict_setitem list_all_dict_setitem)
  have rem: "store_ok (snd (remove_kv s k))" for k
    using assms by (simp add: store_ok_def remove_kv_def distinct_dict_delitem list_all_dict_delitem)
  show ?thesis
    using assms tok set rem by (simp add: parse_and_execute_def Let_def)
qed

lemma store_ok_execute_all: "store_ok s \<Longrightarrow> store_ok (snd (execute_all s cs))"
proof (induction cs arbitrary: s)
  case Nil
  then show ?case by simp
next
  case (Cons c cs)
  have "store_ok (snd (parse_and_execute s c))" using Cons.prems by (rule store_ok_parse_and_execute)
  then have "store_ok (snd (execute_all (snd (parse_and_execute s c)) cs))" by (rule Cons.IH)
  then show ?case by (simp add: split_beta)
qed

lemma arity_checked:
  assumes "split_ws (strip raw) = t # ts"
  shows "(upper t = ''SET'' \<and> length (t # ts) \<noteq> 3 \<longrightarrow>
            parse_and_execute s raw =
              (''ERROR: SET command requires 2 arguments: key and value\<newline>'', s))
       \<and> (upper t = ''GET'' \<and> length (t # ts) \<noteq> 2 \<longrightarrow>
            parse_and_execute s raw = (''ERROR: GET command requires 1 argument: key\<newline>'', s))
       \<and> (upper t = ''REMOVE'' \<and> length (t # ts) \<noteq> 2 \<longrightarrow>
            parse_and_execute s raw =
              (''ERROR: REMOVE command requires 1 argument: key\<newline>'', s))
       \<and> (upper t = ''PRINT'' \<longrightarrow> parse_and_execute s raw = (print_store s, s))"
proof -
  have "strip raw \<noteq> []" using assms by auto
  then show ?thesis using assms by (simp add: parse_and_execute_def Let_def)
qed

lemmas run_defs =
  set_kv_def remove_kv_def get_kv_def save_def init_store_def load_def load_line_def
  print_line_def render_def entry_line_def strip_def rstrip_def split_tab1_def isspace_def
  dict_delitem_def added_msg_def removed_msg_def not_found_msg_def file_lines_for_def
  write_raises_def file_agrees_def Let_def

section \<open>Saving and loading again\<close>

text \<open>
  Claim C3, as amended. For every dictionary with distinct keys whose entries are all
  storable, when the write does not fail and the file can be read, saving the store and
  building a new store on the file gives the same dictionary, entry for entry and in the same
  order (so also as a set of pairs and as a mapping). Every entry of whitespace-free tokens
  is storable (\<open>token_storable\<close>), and so is every dictionary a store reaches from its
  construction through the interpreter (\<open>store_ok_init_store\<close>,
  \<open>store_ok_execute_all\<close>).
\<close>

theorem save_load_roundtrip:
  assumes "distinct (map fst (store s))" and "list_all storable (store s)"
    and "\<not> write_raises s" and "rfault s = None"
  shows "store (init_store (save s)) = store s"
proof -
  have "file_text (save s) = Some (render (store s))"
    using assms(3) save_ok [of s] by (simp add: file_agrees_def)
  then show ?thesis using assms by (intro load_render) simp_all
qed

theorem save_load_roundtrip_witness:
  "distinct (map fst [(''a'', ''1''), (''b'', ''x'' @ [TAB] @ ''y z'')])
   \<and> list_all storable [(''a'', ''1''), (''b'', ''x'' @ [TAB] @ ''y z'')]
   \<and> store (init_store (save \<lparr>store = [(''a'', ''1''), (''b'', ''x'' @ [TAB] @ ''y z'')],
                               file_text = None, wfault = None, rfault = None, out = []\<rparr>))
       = [(''a'', ''1''), (''b'', ''x'' @ [TAB] @ ''y z'')]"
  using save_load_roundtrip
    [of "\<lparr>store = [(''a'', ''1''), (''b'', ''x'' @ [TAB] @ ''y z'')],
          file_text = None, wfault = None, rfault = None, out = []\<rparr>"]
  by (simp add: storable_def line_safe_def isspace_def write_raises_def)

text \<open>
  The claim as stated, for every dictionary, fails: a key holding a tab is cut at that tab,
  and the new store holds another key and another value.
\<close>

theorem save_load_counterexample:
  "store (init_store (save \<lparr>store = [(''a'' @ [TAB] @ ''b'', ''c'')], file_text = None,
                             wfault = None, rfault = None, out = []\<rparr>))
     = [(''a'', ''b'' @ [TAB] @ ''c'')]
   \<and> set (store (init_store (save \<lparr>store = [(''a'' @ [TAB] @ ''b'', ''c'')], file_text = None,
                             wfault = None, rfault = None, out = []\<rparr>)))
     \<noteq> set [(''a'' @ [TAB] @ ''b'', ''c'')]"
  by (simp add: run_defs)

lemma roundtrips_storable: "roundtrips e = storable e"
proof
  assume r: "roundtrips e"
  obtain k v where e: "e = (k, v)" by (cases e)
  let ?w = "save \<lparr>store = [e], file_text = None, wfault = None, rfault = None, out = []\<rparr>"
  have "file_text ?w = Some (render [e])" and "rfault ?w = None" by (simp_all add: save_def)
  moreover have "e \<in> set (store (init_store ?w))" using r by (simp add: roundtrips_def)
  ultimately have c: "clean k \<and> clean v" using loaded_clean [of ?w "render [e]" e] e by simp
  then have "load_line [] (entry_line (k, v)) = [(k, v)]"
    using r e roundtrips_load_line by simp
  then have s: "strip (entry_line (k, v)) = k @ TAB # v" and t: "TAB \<notin> set k"
    using load_line_single by blast+
  then have "\<not> isspace (hd (k @ TAB # v)) \<and> \<not> isspace (last (k @ TAB # v))"
    using strip_ends [of "entry_line (k, v)"] by simp
  then have "k \<noteq> [] \<and> \<not> isspace (hd k) \<and> v \<noteq> [] \<and> \<not> isspace (last v)"
    by (cases k; cases v rule: rev_cases) auto
  then show "storable e" using c t e by (simp add: storable_def line_safe_def clean_def)
next
  assume s: "storable e"
  obtain k v where e: "e = (k, v)" by (cases e)
  have "clean k \<and> clean v" using s e by (simp add: storable_def line_safe_def clean_def)
  moreover have "load_line [] (entry_line e) = [(k, v)]"
    using s e by (simp add: load_line_entry)
  ultimately show "roundtrips e" using e roundtrips_load_line by simp
qed

text \<open>
  Claim C9, as amended. One entry round-trips exactly when its key is not empty, does not
  begin with whitespace and holds no tab, its value is not empty and does not end with
  whitespace, and neither holds a newline or a carriage return. Tabs inside the value do no
  harm, since the line is cut at its first tab only; a tab in the key, or a line break in
  either, always changes what is restored.
\<close>

theorem roundtrip_exactly_when:
  "roundtrips (k, v) =
     (k \<noteq> [] \<and> \<not> isspace (hd k) \<and> TAB \<notin> set k \<and> v \<noteq> [] \<and> \<not> isspace (last v)
      \<and> NL \<notin> set k \<and> CR \<notin> set k \<and> NL \<notin> set v \<and> CR \<notin> set v)"
  by (auto simp: roundtrips_storable storable_def line_safe_def)

theorem roundtrip_exactly_when_witness:
  "roundtrips (''k'', ''a'' @ [TAB] @ ''b c'') \<and> \<not> roundtrips (''a'' @ [TAB] @ ''b'', ''c'')
   \<and> \<not> roundtrips (''a'', ''b'' @ [NL] @ ''c'')"
  using roundtrip_exactly_when [of "''k''" "''a'' @ [TAB] @ ''b c''"]
    roundtrip_exactly_when [of "''a'' @ [TAB] @ ''b''" "''c''"]
    roundtrip_exactly_when [of "''a''" "''b'' @ [NL] @ ''c''"]
  by (simp add: isspace_def)

text \<open>
  The condition of the claim as stated (no tab in the key, no newline in key or value) is
  not enough: the entry \<open>("a", "b ")\<close> meets it, and comes back as \<open>("a", "b")\<close>.
\<close>

theorem roundtrip_condition_counterexample:
  "\<not> (roundtrips (''a'', ''b '') =
        (TAB \<notin> set ''a'' \<and> NL \<notin> set ''a'' \<and> NL \<notin> set ''b ''))"
  by (simp add: roundtrips_def run_defs)

section \<open>Setting a key\<close>

text \<open>
  Claim C1, as amended. After \<open>set(k, v)\<close> returns, \<open>get(k)\<close> returns \<open>v\<close>, always. When
  moreover the write did not fail, and no key of the dictionary holds a tab and no key or
  value a newline (\<open>k\<close> and \<open>v\<close> included), then the file has exactly one line for \<open>k\<close>, and
  it is \<open>k\<close>, a tab, \<open>v\<close> and a newline.
\<close>

theorem set_then_get_and_file_line:
  "get_kv (snd (set_kv s k v)) k = v
   \<and> (distinct (map fst (store s)) \<and> list_all line_safe (store s) \<and> line_safe (k, v)
        \<and> \<not> write_raises (s\<lparr>store := dict_setitem (store s) k v\<rparr>)
      \<longrightarrow> file_lines_for (snd (set_kv s k v)) k = [k @ [TAB] @ v @ [NL]])"
proof (intro conjI impI)
  show "get_kv (snd (set_kv s k v)) k = v" by (simp add: get_kv_def map_of_dict_setitem)
next
  let ?d = "dict_setitem (store s) k v"
  assume h: "distinct (map fst (store s)) \<and> list_all line_safe (store s) \<and> line_safe (k, v)
        \<and> \<not> write_raises (s\<lparr>store := dict_setitem (store s) k v\<rparr>)"
  then have f: "file_text (snd (set_kv s k v)) = Some (render ?d)"
    using file_text_set_kv [of s k v] by (simp add: file_agrees_def)
  have l: "list_all line_safe ?d" using h by (simp add: list_all_dict_setitem)
  then have "readlines (render ?d) = map entry_line ?d" by (rule readlines_render)
  then have "file_lines_for (snd (set_kv s k v)) k = map entry_line (filter (\<lambda>e. fst e = k) ?d)"
    using f l by (simp add: file_lines_for_def filter_lines_render)
  also have "\<dots> = [entry_line (k, v)]" using h by (simp add: filter_key_dict_setitem)
  finally show "file_lines_for (snd (set_kv s k v)) k = [k @ [TAB] @ v @ [NL]]"
    by (simp add: entry_line_def)
qed

theorem set_then_get_and_file_line_witness:
  "get_kv (snd (set_kv \<lparr>store = [(''b'', ''2'')], file_text = None, wfault = None,
                         rfault = None, out = []\<rparr> ''a'' ''1'')) ''a'' = ''1''
   \<and> distinct (map fst [(''b'', ''2'')]) \<and> list_all line_safe [(''b'', ''2'')]
   \<and> line_safe (''a'', ''1'')
   \<and> file_lines_for (snd (set_kv \<lparr>store = [(''b'', ''2'')], file_text = None, wfault = None,
                         rfault = None, out = []\<rparr> ''a'' ''1'')) ''a''
       = [''a'' @ [TAB] @ ''1'' @ [NL]]"
  using set_then_get_and_file_line
    [of "\<lparr>store = [(''b'', ''2'')], file_text = None, wfault = None, rfault = None, out = []\<rparr>"
        "''a''" "''1''"]
  by (simp add: line_safe_def write_raises_def)

text \<open>
  The claim as stated fails in two ways. When the file cannot be opened for writing, \<open>set\<close>
  returns its confirmation and the file has no line for the key. When the value holds a
  newline followed by the key and a tab, the file has two lines for the key.
\<close>

theorem set_file_line_counterexample:
  "fst (set_kv \<lparr>store = [], file_text = None, wfault = Some (OpenFault ''Permission denied''),
                rfault = None, out = []\<rparr> ''a'' ''1'') = ''Added key 'a' with value '1'\<newline>''
   \<and> file_lines_for (snd (set_kv \<lparr>store = [], file_text = None,
          wfault = Some (OpenFault ''Permission denied''), rfault = None, out = []\<rparr>
          ''a'' ''1'')) ''a'' = []
   \<and> file_lines_for (snd (set_kv \<lparr>store = [], file_text = None, wfault = None,
          rfault = None, out = []\<rparr> ''a'' (''1'' @ [NL] @ ''a'' @ [TAB] @ ''2''))) ''a''
       = [''a'' @ [TAB] @ ''1'' @ [NL], ''a'' @ [TAB] @ ''2'' @ [NL]]"
  by (simp add: run_defs)

section \<open>File and dictionary after a mutation\<close>

lemma rfault_set_kv [simp]: "rfault (snd (set_kv s k v)) = rfault s"
  by (simp add: set_kv_def Let_def)





section \<open>Removing a key\<close>




section \<open>Arity\<close>

text \<open>
  Claim C5. \<open>SET\<close>, \<open>GET\<close> and \<open>REMOVE\<close> with a wrong number of tokens return their error
  text and leave the store alone (\<open>arity_checked\<close>). \<open>PRINT\<close> is not checked: the line
  \<open>PRINT extra\<close>, of two tokens, is answered with the listing of the store.
\<close>

theorem print_ignores_extra_tokens:
  "parse_and_execute s ''PRINT extra'' = (print_store s, s)"
  by (simp add: parse_and_execute_def strip_def rstrip_def isspace_def split_ws_def
        upper_def upper_char_def Let_def)

end
